theory Spec2Isabelle
  imports Main
begin

section \<open>Data model of the HTTP cache service\<close>

subsection \<open>Loose values and query parameters\<close>

text \<open>
  A \<open>LooseValue\<close> is what the comparer library accepts: \<open>undefined\<close>, \<open>null\<close>, a scalar,
  an array of \<open>[name, value]\<close> pairs, or a plain object (name to value, in key order).
\<close>

datatype loose_value =
    LUndefined
  | LNull
  | LString string
  | LNumber int
  | LBool bool
  | LPairs "(string \<times> loose_value) list"
  | LObject "(string \<times> loose_value) list"

text \<open>
  \<open>RawParams\<close> is a plain object from parameter names to raw values. Angular's
  \<open>HttpParams\<close> is a multi-valued container: an insertion-ordered map from a name to the
  list of its values. \<open>keys()\<close> lists the names; \<open>get(name)\<close> is \<open>null\<close> for a name that is
  not there and the first element of the value list otherwise (\<open>undefined\<close> when that list
  is empty).
\<close>

type_synonym raw_params = "(string \<times> loose_value) list"

type_synonym http_params = "(string \<times> string list) list"

definition keys :: "http_params \<Rightarrow> string list" where
  "keys p = map fst p"

definition get :: "http_params \<Rightarrow> string \<Rightarrow> loose_value" where
  "get p name =
     (case map_of p name of
        None \<Rightarrow> LNull
      | Some [] \<Rightarrow> LUndefined
      | Some (v # _) \<Rightarrow> LString v)"

text \<open>The optional argument \<open>params?: HttpParams | RawParams\<close>.\<close>

datatype params = Undefined | HttpParams http_params | RawParams raw_params

subsection \<open>Requests, response events, cache items, the service\<close>

text \<open>The fields of an \<open>HttpRequest\<close> that the service reads: \<open>method\<close>, \<open>url\<close>, \<open>params\<close>.\<close>

record http_request =
  http_method :: string
  url :: string
  params :: params

datatype http_event_type =
  Sent | UploadProgress | ResponseHeader | DownloadProgress | Response | User

text \<open>
  An \<open>HttpEvent\<close>: its \<open>type\<close>, the HTTP status it carries (0 for an event that carries
  none), and the rest of it. Angular sets \<open>ok\<close> on a response from its status.
\<close>

record 'r http_event =
  event_type :: http_event_type
  status :: nat
  payload :: 'r

definition ok :: "'r http_event \<Rightarrow> bool" where
  "ok resp = (200 \<le> status resp \<and> status resp < 300)"

text \<open>
  A cache item is a JavaScript object, and \<open>bust\<close> compares items with \<open>!==\<close>, that is by
  object identity. The field \<open>ref\<close> is that identity: two items with the same \<open>ref\<close> are
  one object held twice. Items are never written to after their creation.
\<close>

record 'r IHttpCacheItem =
  ref :: nat
  request :: http_request
  response :: "'r http_event"

record IHttpCacheSettings =
  enableInterceptor :: bool
  shouldCacheAuthorization :: bool
  verbose :: bool

text \<open>What \<open>console.log\<close> is called with, one value per call.\<close>

datatype 'r log_line =
    LogInitializing "'r IHttpCacheItem list"
  | LogCaching string string params
  | LogBustAll
  | LogBust string "string option" params

text \<open>
  The service object: the private array \<open>_cache\<close>, the public \<open>settings\<close>, and the
  console as the list of lines written so far.
\<close>

record 'r HttpCacheService =
  cache :: "'r IHttpCacheItem list"
  settings :: IHttpCacheSettings
  console :: "'r log_line list"

text \<open>
  The arguments of \<open>find\<close>, \<open>has\<close> and \<open>bust\<close>: either one \<open>HttpRequest\<close>, or a method
  string with an optional URL (\<open>None\<close> is \<open>undefined\<close>) and optional params.
\<close>

datatype call_args =
    ByRequest http_request
  | ByTriple string "string option" params

section \<open>The operations\<close>

subsection \<open>Construction\<close>

definition console_log :: "'r log_line \<Rightarrow> 'r HttpCacheService \<Rightarrow> 'r HttpCacheService" where
  "console_log line this = this \<lparr> console := console this @ [line] \<rparr>"

text \<open>
  The constructor takes the settings and the preloaded items; \<open>initialize\<close> logs the
  items and makes them the array. \<open>getDefaultCacheSettings\<close> is the provider's default.
\<close>

definition initialize :: "'r IHttpCacheItem list \<Rightarrow> 'r HttpCacheService \<Rightarrow> 'r HttpCacheService" where
  "initialize items this = (console_log (LogInitializing items) this) \<lparr> cache := items \<rparr>"

definition new_HttpCacheService ::
  "IHttpCacheSettings \<Rightarrow> 'r IHttpCacheItem list \<Rightarrow> 'r HttpCacheService" where
  "new_HttpCacheService s preloadedCache =
     initialize preloadedCache \<lparr> cache = [], settings = s, console = [] \<rparr>"

definition getDefaultCacheSettings :: IHttpCacheSettings where
  "getDefaultCacheSettings =
     \<lparr> enableInterceptor = True, shouldCacheAuthorization = False, verbose = False \<rparr>"

subsection \<open>Key normalizer\<close>

fun convertHttpParamsToLooseValue :: "params \<Rightarrow> loose_value" where
  "convertHttpParamsToLooseValue (HttpParams p) = LPairs (map (\<lambda>key. (key, get p key)) (keys p))"
| "convertHttpParamsToLooseValue Undefined = LUndefined"
| "convertHttpParamsToLooseValue (RawParams m) = LObject m"

definition hasParams :: "http_params option \<Rightarrow> bool" where
  "hasParams ps = (case ps of None \<Rightarrow> True | Some p \<Rightarrow> length (keys p) > 0)"

text \<open>
  \<open>COMPARERS.areBasicallyEqual\<close> lives in the comparer library; the service takes it as the
  parameter \<open>cmp\<close>.
\<close>

type_synonym comparer = "loose_value \<Rightarrow> loose_value \<Rightarrow> bool"

definition paramsAreBasicallyEqual :: "comparer \<Rightarrow> params \<Rightarrow> params \<Rightarrow> bool" where
  "paramsAreBasicallyEqual cmp params1 params2 =
     (let looseParams1 = convertHttpParamsToLooseValue params1;
          looseParams2 = convertHttpParamsToLooseValue params2
      in cmp looseParams1 looseParams2)"

subsection \<open>Lookup\<close>

text \<open>
  \<open>find\<close> first reads method, URL and params from its arguments, answers \<open>null\<close> (\<open>None\<close>)
  when the URL is \<open>undefined\<close>, and otherwise returns the first item of the array that the
  callback accepts (\<open>Array.prototype.find\<close>), or \<open>null\<close>.
\<close>

fun find_item :: "comparer \<Rightarrow> 'r HttpCacheService \<Rightarrow> call_args \<Rightarrow> 'r IHttpCacheItem option" where
  "find_item cmp this (ByRequest req) =
     find (\<lambda>item.
             if http_method (request item) \<noteq> http_method req \<or> url (request item) \<noteq> url req then False
             else paramsAreBasicallyEqual cmp (params req) (params (request item)))
          (cache this)"
| "find_item cmp this (ByTriple m None ps) = None"
| "find_item cmp this (ByTriple m (Some u) ps) =
     find (\<lambda>item.
             if http_method (request item) \<noteq> m \<or> url (request item) \<noteq> u then False
             else paramsAreBasicallyEqual cmp ps (params (request item)))
          (cache this)"

fun has :: "comparer \<Rightarrow> 'r HttpCacheService \<Rightarrow> call_args \<Rightarrow> bool" where
  "has cmp this (ByTriple m None ps) = False"
| "has cmp this (ByTriple m (Some u) ps) = (find_item cmp this (ByTriple m (Some u) ps) \<noteq> None)"
| "has cmp this (ByRequest req) = (find_item cmp this (ByRequest req) \<noteq> None)"

text \<open>
  The signatures of \<open>find\<close> and \<open>has\<close> ask for a request or a method string as first
  argument. JavaScript also runs a call that passes \<open>undefined\<close> there: then \<open>request\<close> is
  \<open>undefined\<close>, the test \<open>request === null\<close> fails, and reading \<open>request.method\<close> raises
  a \<open>TypeError\<close>. \<open>find_call\<close> and \<open>has_call\<close> are the two operations on any such call,
  with the error as a value. With a request, \<open>has\<close> passes only the request on to \<open>find\<close>.
\<close>

datatype js_error = TypeError

datatype method_arg =
    ArgUndefined
  | ArgString string
  | ArgRequest http_request

definition find_call ::
  "comparer \<Rightarrow> 'r HttpCacheService \<Rightarrow> method_arg \<Rightarrow> string option \<Rightarrow> params
     \<Rightarrow> js_error + 'r IHttpCacheItem option" where
  "find_call cmp this m u ps =
     (case m of
        ArgUndefined \<Rightarrow> Inl TypeError
      | ArgString s \<Rightarrow> Inr (find_item cmp this (ByTriple s u ps))
      | ArgRequest req \<Rightarrow> Inr (find_item cmp this (ByRequest req)))"

definition has_call ::
  "comparer \<Rightarrow> 'r HttpCacheService \<Rightarrow> method_arg \<Rightarrow> string option \<Rightarrow> params
     \<Rightarrow> js_error + bool" where
  "has_call cmp this m u ps =
     (case m of
        ArgString s \<Rightarrow>
          (case u of
             None \<Rightarrow> Inr False
           | Some v \<Rightarrow>
               (case find_call cmp this (ArgString s) (Some v) ps of
                  Inl e \<Rightarrow> Inl e
                | Inr item \<Rightarrow> Inr (item \<noteq> None)))
      | _ \<Rightarrow>
          (case find_call cmp this m None Undefined of
             Inl e \<Rightarrow> Inl e
           | Inr item \<Rightarrow> Inr (item \<noteq> None)))"

subsection \<open>Insertion\<close>

text \<open>
  \<open>createHttpCacheItem\<close> builds a new object. Its identity differs from that of every item
  the array holds; \<open>new_ref\<close> picks such an identity.
\<close>

definition new_ref :: "'r IHttpCacheItem list \<Rightarrow> nat" where
  "new_ref items = Suc (fold max (map ref items) 0)"

definition createHttpCacheItem ::
  "nat \<Rightarrow> http_request \<Rightarrow> 'r http_event \<Rightarrow> 'r IHttpCacheItem" where
  "createHttpCacheItem r req resp = \<lparr> ref = r, request = req, response = resp \<rparr>"

definition insert_item ::
  "'r HttpCacheService \<Rightarrow> http_request \<Rightarrow> 'r http_event \<Rightarrow> 'r HttpCacheService" where
  "insert_item this req resp =
     (if event_type resp \<noteq> Response then this
      else
        let this1 = (if verbose (settings this)
                     then console_log (LogCaching (http_method req) (url req) (params req)) this
                     else this)
        in this1 \<lparr> cache := cache this1 @ [createHttpCacheItem (new_ref (cache this1)) req resp] \<rparr>)"

subsection \<open>Invalidation\<close>

text \<open>
  \<open>bust\<close> takes no argument (\<open>None\<close>), or the arguments of \<open>find\<close>. The filter keeps the
  items that are not the object found.
\<close>

fun bust :: "comparer \<Rightarrow> 'r HttpCacheService \<Rightarrow> call_args option \<Rightarrow> 'r HttpCacheService" where
  "bust cmp this None =
     (let this1 = (if verbose (settings this) then console_log LogBustAll this else this)
      in this1 \<lparr> cache := [] \<rparr>)"
| "bust cmp this (Some (ByTriple m u ps)) =
     (case find_item cmp this (ByTriple m u ps) of
        None \<Rightarrow> this
      | Some item \<Rightarrow>
          let this1 = (if verbose (settings this)
                       then console_log (LogBust m u ps) this
                       else this)
          in this1 \<lparr> cache := filter (\<lambda>cacheItem. ref cacheItem \<noteq> ref item) (cache this1) \<rparr>)"
| "bust cmp this (Some (ByRequest req)) =
     (case find_item cmp this (ByRequest req) of
        None \<Rightarrow> this
      | Some item \<Rightarrow>
          let this1 = (if verbose (settings this)
                       then console_log (LogBust (http_method req) (Some (url req)) (params req)) this
                       else this)
          in this1 \<lparr> cache := filter (\<lambda>cacheItem. ref cacheItem \<noteq> ref item) (cache this1) \<rparr>)"

subsection \<open>Sequences of calls\<close>

text \<open>
  A caller issues the four public operations one after the other on the same service
  object. \<open>find\<close> and \<open>has\<close> contain no assignment, so they hand the object on as it is.
\<close>

datatype 'r operation =
    Find call_args
  | Has call_args
  | Insert http_request "'r http_event"
  | Bust "call_args option"

datatype 'r outcome =
    Found "'r IHttpCacheItem option"
  | Answer bool
  | Void

fun step :: "comparer \<Rightarrow> 'r HttpCacheService \<Rightarrow> 'r operation \<Rightarrow> 'r outcome \<times> 'r HttpCacheService" where
  "step cmp this (Find a) = (Found (find_item cmp this a), this)"
| "step cmp this (Has a) = (Answer (has cmp this a), this)"
| "step cmp this (Insert req resp) = (Void, insert_item this req resp)"
| "step cmp this (Bust a) = (Void, bust cmp this a)"

fun run :: "comparer \<Rightarrow> 'r HttpCacheService \<Rightarrow> 'r operation list \<Rightarrow> 'r outcome list \<times> 'r HttpCacheService" where
  "run cmp this [] = ([], this)"
| "run cmp this (op # ops) =
     (let (out, this1) = step cmp this op;
          (outs, this2) = run cmp this1 ops
      in (out # outs, this2))"

section \<open>The lookup rule in the words of the specification\<close>

text \<open>
  An entry matches a descriptor when its method and its URL are the descriptor's, as
  strings, and the descriptor's params are fuzzy-equal to its params. A descriptor with
  no URL is matched by no entry.
\<close>

definition matches :: "comparer \<Rightarrow> call_args \<Rightarrow> 'r IHttpCacheItem \<Rightarrow> bool" where
  "matches cmp d item =
     (case d of
        ByRequest req \<Rightarrow>
          http_method (request item) = http_method req \<and> url (request item) = url req
          \<and> cmp (convertHttpParamsToLooseValue (params req))
                  (convertHttpParamsToLooseValue (params (request item)))
      | ByTriple m None ps \<Rightarrow> False
      | ByTriple m (Some u) ps \<Rightarrow>
          http_method (request item) = m \<and> url (request item) = u
          \<and> cmp (convertHttpParamsToLooseValue ps)
                  (convertHttpParamsToLooseValue (params (request item))))"

text \<open>
  A response is a complete, successful terminal event when it is the \<open>Response\<close> event
  of a request and its status is a success.
\<close>

definition successful_terminal :: "'r http_event \<Rightarrow> bool" where
  "successful_terminal resp = (event_type resp = Response \<and> ok resp)"

section \<open>The fuzzy equality comparer\<close>

text \<open>
  Modelled from the spec: \<open>COMPARERS.areBasicallyEqual\<close> of \<open>library/comparers\<close>, which the
  service imports. A value is empty if it is \<open>undefined\<close>, \<open>null\<close>, an empty string, or an
  empty object or sequence. The names of both sides are collected; each name is looked
  up on each side (absent is empty); two values are equal if both are empty, or if both
  are non-empty and compare equal, nested parameter sets by the same rule and scalars by
  value. \<open>undefined\<close> has no names: against \<open>undefined\<close> or an empty sequence it is equal,
  against a non-empty sequence the names of that sequence decide.
\<close>

fun isEmpty :: "loose_value \<Rightarrow> bool" where
  "isEmpty LUndefined = True"
| "isEmpty LNull = True"
| "isEmpty (LString s) = (s = [])"
| "isEmpty (LPairs ps) = (ps = [])"
| "isEmpty (LObject ps) = (ps = [])"
| "isEmpty _ = False"

fun entries :: "loose_value \<Rightarrow> (string \<times> loose_value) list" where
  "entries (LPairs ps) = ps"
| "entries (LObject ps) = ps"
| "entries _ = []"

fun isParamSet :: "loose_value \<Rightarrow> bool" where
  "isParamSet LUndefined = True"
| "isParamSet (LPairs ps) = True"
| "isParamSet (LObject ps) = True"
| "isParamSet _ = False"

definition names :: "loose_value \<Rightarrow> string list" where
  "names v = map fst (entries v)"

definition lookup :: "loose_value \<Rightarrow> string \<Rightarrow> loose_value" where
  "lookup v name = (case map_of (entries v) name of None \<Rightarrow> LUndefined | Some x \<Rightarrow> x)"

lemma size_map_of: "map_of ps k = Some x \<Longrightarrow> size x < Suc (size_list (size_prod (\<lambda>_. 0) size) ps)"
  by (induction ps) (auto split: if_splits)

lemma size_lookup: "\<not> isEmpty (lookup v k) \<Longrightarrow> size (lookup v k) < size v"
  by (cases v) (auto simp: lookup_def split: option.splits dest: size_map_of)

function areBasicallyEqual :: "loose_value \<Rightarrow> loose_value \<Rightarrow> bool" where
  "areBasicallyEqual a b =
     (if isParamSet a \<and> isParamSet b
      then list_all (\<lambda>name.
             if isEmpty (lookup a name) \<or> isEmpty (lookup b name)
             then isEmpty (lookup a name) \<and> isEmpty (lookup b name)
             else areBasicallyEqual (lookup a name) (lookup b name))
           (names a @ names b)
      else a = b)"
  by pat_completeness auto
termination
  by (relation "measure (\<lambda>(a, b). size a + size b)") (simp_all add: add_less_mono size_lookup)

declare areBasicallyEqual.simps [simp del]

section \<open>Example requests and stores\<close>

definition users_active :: http_request where
  "users_active = \<lparr> http_method = ''GET'', url = ''/users'',
                     params = HttpParams [(''active'', [''true''])] \<rparr>"

definition users_active_foo :: http_request where
  "users_active_foo = \<lparr> http_method = ''GET'', url = ''/users'',
                         params = HttpParams [(''active'', [''true'']), (''foo'', [''''])] \<rparr>"

definition users_query :: call_args where
  "users_query = ByTriple ''GET'' (Some ''/users'') (RawParams [(''active'', LString ''true'')])"

definition progress :: "string http_event" where
  "progress = \<lparr> event_type = DownloadProgress, status = 0, payload = ''partial'' \<rparr>"

definition done1 :: "string http_event" where
  "done1 = \<lparr> event_type = Response, status = 200, payload = ''first'' \<rparr>"

definition done2 :: "string http_event" where
  "done2 = \<lparr> event_type = Response, status = 200, payload = ''second'' \<rparr>"

definition server_error :: "string http_event" where
  "server_error = \<lparr> event_type = Response, status = 500, payload = ''failed'' \<rparr>"

definition empty_service :: "string HttpCacheService" where
  "empty_service = new_HttpCacheService getDefaultCacheSettings []"

definition two_entries :: "string HttpCacheService" where
  "two_entries = insert_item (insert_item empty_service users_active done1) users_active_foo done2"

definition shared_item :: "string IHttpCacheItem" where
  "shared_item = \<lparr> ref = 1, request = users_active, response = done1 \<rparr>"

definition preloaded_twice :: "string HttpCacheService" where
  "preloaded_twice = new_HttpCacheService getDefaultCacheSettings [shared_item, shared_item]"

section \<open>Auxiliary facts\<close>

subsection \<open>Object identities\<close>

lemma fold_max_ge_init: "(a::nat) \<le> fold max xs a"
  by (induction xs arbitrary: a) (auto intro: le_trans [OF max.cobounded2])

lemma fold_max_ge_elem: "x \<in> set xs \<Longrightarrow> (x::nat) \<le> fold max xs a"
proof (induction xs arbitrary: a)
  case Nil
  then show ?case by simp
next
  case (Cons y ys)
  show ?case
  proof (cases "x = y")
    case True
    have "y \<le> max y a" by simp
    also have "\<dots> \<le> fold max ys (max y a)" by (rule fold_max_ge_init)
    finally show ?thesis using True by simp
  next
    case False
    with Cons.prems have "x \<in> set ys" by simp
    then show ?thesis using Cons.IH by simp
  qed
qed

lemma new_ref_fresh: "item \<in> set items \<Longrightarrow> ref item < new_ref items"
  unfolding new_ref_def using fold_max_ge_elem [of "ref item" "map ref items" 0] by simp

lemma new_ref_not_held: "new_ref items \<notin> ref ` set items"
  using new_ref_fresh by fastforce

subsection \<open>What each operation does to the array\<close>

lemma find_item_eq_find: "find_item cmp this d = find (matches cmp d) (cache this)"
proof (cases d)
  case (ByRequest req)
  then show ?thesis
    by (auto simp: matches_def paramsAreBasicallyEqual_def intro!: find_cong)
next
  case (ByTriple m u ps)
  show ?thesis
  proof (cases u)
    case None
    have "find (matches cmp (ByTriple m None ps)) (cache this) = None"
      by (simp add: find_None_iff matches_def)
    with ByTriple None show ?thesis by simp
  next
    case (Some v)
    with ByTriple show ?thesis
      by (auto simp: matches_def paramsAreBasicallyEqual_def intro!: find_cong)
  qed
qed

lemma has_eq_find: "has cmp this d = (find_item cmp this d \<noteq> None)"
  by (rule has.cases [of "(cmp, this, d)"]) simp_all

lemma find_item_None_iff:
  "(find_item cmp this d = None) = (\<forall>item \<in> set (cache this). \<not> matches cmp d item)"
  by (auto simp: find_item_eq_find find_None_iff)

lemma find_item_Some_iff:
  "(find_item cmp this d = Some item) =
     (\<exists>i < length (cache this). cache this ! i = item \<and> matches cmp d item
        \<and> (\<forall>j < i. \<not> matches cmp d (cache this ! j)))"
  by (auto simp: find_item_eq_find find_Some_iff)

lemma find_item_empty: "cache this = [] \<Longrightarrow> find_item cmp this d = None"
  by (simp add: find_item_eq_find)

lemma insert_item_cache:
  "cache (insert_item this req resp) =
     (if event_type resp \<noteq> Response then cache this
      else cache this @ [createHttpCacheItem (new_ref (cache this)) req resp])"
  by (simp add: insert_item_def console_log_def Let_def)

lemma bust_cache:
  "cache (bust cmp this (Some d)) =
     (case find_item cmp this d of
        None \<Rightarrow> cache this
      | Some item \<Rightarrow> filter (\<lambda>cacheItem. ref cacheItem \<noteq> ref item) (cache this))"
proof (cases d)
  case (ByRequest req)
  then show ?thesis
    by (simp add: console_log_def Let_def split: option.splits)
next
  case (ByTriple m u ps)
  then show ?thesis
    by (simp add: console_log_def Let_def split: option.splits)
qed

lemma bust_not_found: "find_item cmp this d = None \<Longrightarrow> bust cmp this (Some d) = this"
  by (cases d) simp_all

lemma bust_all_cache: "cache (bust cmp this None) = []"
  by (simp add: console_log_def Let_def)

subsection \<open>Lists\<close>

lemma find_append_first:
  "\<forall>x \<in> set xs. \<not> P x \<Longrightarrow> P y \<Longrightarrow> find P (xs @ y # ys) = Some y"
  by (induction xs) auto

lemma find_Some_split:
  "find P xs = Some y \<Longrightarrow>
     \<exists>before after. xs = before @ y # after \<and> (\<forall>x \<in> set before. \<not> P x) \<and> P y"
proof (induction xs)
  case Nil
  then show ?case by simp
next
  case (Cons x xs)
  show ?case
  proof (cases "P x")
    case True
    with Cons.prems have "x = y" by simp
    with True have "x # xs = [] @ y # xs \<and> (\<forall>x \<in> set []. \<not> P x) \<and> P y" by simp
    then show ?thesis by blast
  next
    case False
    with Cons.prems have "find P xs = Some y" by simp
    from Cons.IH [OF this] obtain before after
      where "xs = before @ y # after" "\<forall>x \<in> set before. \<not> P x" "P y" by blast
    with False
    have "x # xs = (x # before) @ y # after \<and> (\<forall>x \<in> set (x # before). \<not> P x) \<and> P y"
      by simp
    then show ?thesis by blast
  qed
qed

lemma filter_out_distinct:
  assumes "distinct (map f (xs @ y # ys))"
  shows "filter (\<lambda>c. f c \<noteq> f y) (xs @ y # ys) = xs @ ys"
proof -
  have "\<forall>x \<in> set xs. f x \<noteq> f y" "\<forall>x \<in> set ys. f x \<noteq> f y"
    using assms by (auto simp: image_iff)
  then have "filter (\<lambda>c. f c \<noteq> f y) xs = xs" "filter (\<lambda>c. f c \<noteq> f y) ys = ys"
    by (simp_all add: filter_id_conv)
  then show ?thesis by simp
qed

subsection \<open>The example stores\<close>

lemmas cmp_eval = areBasicallyEqual.simps names_def lookup_def paramsAreBasicallyEqual_def
  get_def keys_def

lemma new_service_cache: "cache (new_HttpCacheService s items) = items"
  by (simp add: new_HttpCacheService_def initialize_def console_log_def)

lemma empty_service_cache: "cache empty_service = []"
  by (simp add: empty_service_def new_service_cache)

lemma two_entries_cache:
  "cache two_entries = [\<lparr> ref = 1, request = users_active, response = done1 \<rparr>,
                        \<lparr> ref = 2, request = users_active_foo, response = done2 \<rparr>]"
  by (simp add: two_entries_def insert_item_cache createHttpCacheItem_def new_ref_def
      empty_service_cache done1_def done2_def)

lemma matches_users:
  "matches areBasicallyEqual users_query \<lparr> ref = n, request = users_active, response = r \<rparr>"
  "matches areBasicallyEqual users_query \<lparr> ref = n, request = users_active_foo, response = r \<rparr>"
  by (simp_all add: matches_def users_query_def users_active_def users_active_foo_def cmp_eval)

subsection \<open>Entries that are pairwise distinct objects\<close>

text \<open>
  A store whose entries are pairwise distinct objects stays so: the empty store is one,
  \<open>insert\<close> adds a new object, and \<open>bust\<close> only removes.
\<close>

lemma insert_item_distinct:
  "distinct (map ref (cache this)) \<Longrightarrow> distinct (map ref (cache (insert_item this req resp)))"
  using new_ref_not_held [of "cache this"]
  by (simp add: insert_item_cache createHttpCacheItem_def)

lemma bust_distinct:
  "distinct (map ref (cache this)) \<Longrightarrow> distinct (map ref (cache (bust cmp this a)))"
proof (cases a)
  case None
  then show ?thesis by (simp add: bust_all_cache)
next
  case (Some d)
  assume "distinct (map ref (cache this))"
  then show ?thesis
    unfolding Some bust_cache by (simp add: distinct_map_filter split: option.splits)
qed

section \<open>Insertion\<close>

text \<open>
  C1, with the gate the code has. \<open>insert\<close> leaves the service as it is unless the
  response event is the terminal \<open>Response\<close> event; its status is not looked at. For a
  terminal event, of whatever status, the array afterwards is the array before with
  exactly one entry appended at its end: a new object holding the request and the
  response. No condition on the entries already there is involved, so an entry that
  matches the same descriptor does not prevent the append.
\<close>

theorem insert_gating:
  "(event_type resp \<noteq> Response \<longrightarrow> insert_item this req resp = this)
   \<and> (event_type resp = Response \<longrightarrow>
        cache (insert_item this req resp)
          = cache this @ [\<lparr> ref = new_ref (cache this), request = req, response = resp \<rparr>]
        \<and> new_ref (cache this) \<notin> ref ` set (cache this))"
  using new_ref_not_held [of "cache this"]
  by (simp add: insert_item_cache createHttpCacheItem_def) (simp add: insert_item_def)

text \<open>
  On the empty store: a progress event changes nothing, a terminal event appends one
  entry, and a second terminal event for the same request appends a second entry.
\<close>

theorem insert_gating_witness:
  "event_type progress \<noteq> Response \<and> event_type done1 = Response \<and> event_type done2 = Response
   \<and> insert_item empty_service users_active progress = empty_service
   \<and> cache (insert_item empty_service users_active done1)
       = [\<lparr> ref = 1, request = users_active, response = done1 \<rparr>]
   \<and> cache (insert_item (insert_item empty_service users_active done1) users_active done2)
       = [\<lparr> ref = 1, request = users_active, response = done1 \<rparr>,
          \<lparr> ref = 2, request = users_active, response = done2 \<rparr>]"
  using insert_gating [of progress empty_service users_active]
    insert_gating [of done1 empty_service users_active]
    insert_gating [of done2 "insert_item empty_service users_active done1" users_active]
  by (simp add: progress_def done1_def done2_def) (simp add: new_ref_def empty_service_cache)

text \<open>
  A terminal response with status 500 is not a successful one, and \<open>insert\<close> stores it:
  the service is not left as it was.
\<close>

theorem insert_server_error_counterexample:
  "\<not> successful_terminal server_error
   \<and> insert_item empty_service users_active server_error \<noteq> empty_service
   \<and> cache (insert_item empty_service users_active server_error)
       = [\<lparr> ref = 1, request = users_active, response = server_error \<rparr>]"
proof -
  have n: "\<not> successful_terminal server_error"
    by (simp add: successful_terminal_def ok_def server_error_def)
  have t: "event_type server_error = Response"
    by (simp add: server_error_def)
  have c: "cache (insert_item empty_service users_active server_error)
       = [\<lparr> ref = 1, request = users_active, response = server_error \<rparr>]"
    by (simp add: insert_item_cache t createHttpCacheItem_def new_ref_def empty_service_cache)
  have "cache (insert_item empty_service users_active server_error) \<noteq> cache empty_service"
    unfolding c by (simp add: empty_service_cache)
  then have "insert_item empty_service users_active server_error \<noteq> empty_service"
    by auto
  with n c show ?thesis by simp
qed

section \<open>Lookup\<close>

lemma find_after_two_inserts:
  assumes none: "\<forall>x \<in> set (cache this). \<not> matches cmp d x"
    and t1: "event_type v1 = Response" and t2: "event_type v2 = Response"
    and m1: "matches cmp d (createHttpCacheItem (new_ref (cache this)) r1 v1)"
  shows "find_item cmp (insert_item (insert_item this r1 v1) r2 v2) d
           = Some (createHttpCacheItem (new_ref (cache this)) r1 v1)"
proof -
  let ?e1 = "createHttpCacheItem (new_ref (cache this)) r1 v1"
  have "\<exists>e2. cache (insert_item (insert_item this r1 v1) r2 v2) = cache this @ ?e1 # [e2]"
    using t1 t2 by (simp add: insert_item_cache)
  then obtain e2 where
    c: "cache (insert_item (insert_item this r1 v1) r2 v2) = cache this @ ?e1 # [e2]" ..
  show ?thesis
    unfolding find_item_eq_find c using none m1 by (rule find_append_first)
qed

text \<open>
  C2. \<open>find\<close> answers not-found exactly when no entry matches the descriptor, and it
  answers an entry exactly when that entry stands at some position of the array, matches,
  and no entry at an earlier position matches: the first match in insertion order. In
  particular, when the store holds no match and two terminal responses are inserted, the
  first for a matching request, \<open>find\<close> returns the entry of the first insertion, whatever
  the second request is (so also when it matches).
\<close>

theorem find_first_match:
  "(find_item cmp this d = None) = (\<forall>item \<in> set (cache this). \<not> matches cmp d item)
   \<and> (find_item cmp this d = Some item) =
        (\<exists>i < length (cache this). cache this ! i = item \<and> matches cmp d item
           \<and> (\<forall>j < i. \<not> matches cmp d (cache this ! j)))
   \<and> ((\<forall>x \<in> set (cache this). \<not> matches cmp d x)
        \<and> event_type v1 = Response \<and> event_type v2 = Response
        \<and> matches cmp d (createHttpCacheItem (new_ref (cache this)) r1 v1)
      \<longrightarrow> find_item cmp (insert_item (insert_item this r1 v1) r2 v2) d
            = Some (createHttpCacheItem (new_ref (cache this)) r1 v1))"
  using find_item_None_iff [of cmp this d] find_item_Some_iff [of cmp this d item]
    find_after_two_inserts [of this cmp d v1 v2 r1 r2]
  by blast

text \<open>
  Two requests that differ in an empty \<open>foo\<close> are inserted into the empty store; both
  entries match the query, and \<open>find\<close> returns the first.
\<close>

theorem find_first_match_witness:
  "find_item areBasicallyEqual empty_service users_query = None
   \<and> find_item areBasicallyEqual two_entries users_query
       = Some \<lparr> ref = 1, request = users_active, response = done1 \<rparr>
   \<and> cache two_entries ! 0 = \<lparr> ref = 1, request = users_active, response = done1 \<rparr>
   \<and> matches areBasicallyEqual users_query (cache two_entries ! 1)"
proof -
  have n: "\<forall>x \<in> set (cache empty_service). \<not> matches areBasicallyEqual users_query x"
    by (simp add: empty_service_cache)
  have r: "event_type done1 = Response" "event_type done2 = Response"
    by (simp_all add: done1_def done2_def)
  have e: "new_ref (cache empty_service) = 1"
    by (simp add: new_ref_def empty_service_cache)
  have m: "matches areBasicallyEqual users_query
             (createHttpCacheItem (new_ref (cache empty_service)) users_active done1)"
    by (simp add: createHttpCacheItem_def matches_users)
  from find_first_match [of areBasicallyEqual empty_service users_query _ done1 done2
      users_active users_active_foo] n r m
  have "find_item areBasicallyEqual empty_service users_query = None"
    and "find_item areBasicallyEqual two_entries users_query
       = Some (createHttpCacheItem (new_ref (cache empty_service)) users_active done1)"
    unfolding two_entries_def by blast+
  then show ?thesis
    by (simp add: e createHttpCacheItem_def two_entries_cache matches_users)
qed

text \<open>
  C6, for the calls that the signatures of \<open>find\<close> and \<open>has\<close> admit. A call with a
  method string and an undefined URL does not raise: \<open>find\<close> returns not-found and \<open>has\<close>
  returns false, in every store and for every method and params. Every other call with a
  method string or with a request returns as well, without raising, with the result of
  the lookup.
\<close>

theorem lookup_total_on_typed_calls:
  "find_call cmp this (ArgString m) None ps = Inr None
   \<and> has_call cmp this (ArgString m) None ps = Inr False
   \<and> find_call cmp this (ArgString m) (Some u) ps
       = Inr (find_item cmp this (ByTriple m (Some u) ps))
   \<and> has_call cmp this (ArgString m) (Some u) ps
       = Inr (has cmp this (ByTriple m (Some u) ps))
   \<and> find_call cmp this (ArgRequest req) any_url ps = Inr (find_item cmp this (ByRequest req))
   \<and> has_call cmp this (ArgRequest req) any_url ps = Inr (has cmp this (ByRequest req))"
  by (simp add: find_call_def has_call_def)

text \<open>
  A call with neither a request nor a method string, which has no URL and no request
  object to take one from, is not answered with not-found: both operations raise.
\<close>

theorem lookup_without_method_counterexample:
  "find_call areBasicallyEqual empty_service ArgUndefined None Undefined = Inl TypeError
   \<and> has_call areBasicallyEqual empty_service ArgUndefined None Undefined = Inl TypeError"
  by (simp add: find_call_def has_call_def)

lemma run_replicate_find:
  "run cmp this (replicate n (Find d)) = (replicate n (Found (find_item cmp this d)), this)"
  by (induction n) simp_all

text \<open>
  C7. A call of \<open>find\<close> or of \<open>has\<close> hands the service on exactly as it received it, and
  any number of calls of \<open>find\<close> with the same descriptor, one after the other, all
  return the same result and leave the service as it was.
\<close>

theorem lookup_does_not_mutate:
  "snd (step cmp this (Find d)) = this
   \<and> snd (step cmp this (Has d)) = this
   \<and> run cmp this (replicate n (Find d)) = (replicate n (Found (find_item cmp this d)), this)"
  by (simp add: run_replicate_find)

section \<open>Invalidation\<close>

text \<open>
  C3, for a store whose entries are pairwise distinct objects. If \<open>find\<close> answers
  not-found, \<open>bust\<close> with that descriptor leaves the service unchanged. If \<open>find\<close>
  answers an entry, the array splits into the entries before it, none of which matches,
  the entry itself, and the entries after it; after \<open>bust\<close> the array is the entries
  before followed by the entries after, in their order, whether or not they match.
\<close>

theorem bust_removes_first_match:
  assumes "distinct (map ref (cache this))"
  shows "(find_item cmp this d = None \<longrightarrow> bust cmp this (Some d) = this)
   \<and> (\<forall>item. find_item cmp this d = Some item \<longrightarrow>
        (\<exists>before after.
           cache this = before @ item # after
           \<and> (\<forall>x \<in> set before. \<not> matches cmp d x)
           \<and> matches cmp d item
           \<and> cache (bust cmp this (Some d)) = before @ after))"
proof (intro conjI allI impI)
  assume "find_item cmp this d = None"
  then show "bust cmp this (Some d) = this" by (rule bust_not_found)
next
  fix item
  assume f: "find_item cmp this d = Some item"
  then have "find (matches cmp d) (cache this) = Some item"
    by (simp add: find_item_eq_find)
  from find_Some_split [OF this] obtain before after
    where s: "cache this = before @ item # after"
      and b: "\<forall>x \<in> set before. \<not> matches cmp d x" and m: "matches cmp d item"
    by blast
  have "cache (bust cmp this (Some d)) = filter (\<lambda>c. ref c \<noteq> ref item) (cache this)"
    by (simp add: bust_cache f)
  also have "\<dots> = before @ after"
    using assms unfolding s by (rule filter_out_distinct)
  finally show "\<exists>before after.
           cache this = before @ item # after
           \<and> (\<forall>x \<in> set before. \<not> matches cmp d x)
           \<and> matches cmp d item
           \<and> cache (bust cmp this (Some d)) = before @ after"
    using s b m by blast
qed

text \<open>
  The store of two matching entries: \<open>bust\<close> removes the first, the second stays, and
  the next \<open>find\<close> returns the second.
\<close>

theorem bust_removes_first_match_witness:
  "distinct (map ref (cache two_entries))
   \<and> find_item areBasicallyEqual two_entries users_query
       = Some \<lparr> ref = 1, request = users_active, response = done1 \<rparr>
   \<and> cache (bust areBasicallyEqual two_entries (Some users_query))
       = [\<lparr> ref = 2, request = users_active_foo, response = done2 \<rparr>]
   \<and> find_item areBasicallyEqual (bust areBasicallyEqual two_entries (Some users_query)) users_query
       = Some \<lparr> ref = 2, request = users_active_foo, response = done2 \<rparr>"
proof -
  let ?e1 = "\<lparr> ref = 1, request = users_active, response = done1 \<rparr>"
  let ?e2 = "\<lparr> ref = 2, request = users_active_foo, response = done2 \<rparr>"
  have d: "distinct (map ref (cache two_entries))"
    by (simp add: two_entries_cache)
  have f: "find_item areBasicallyEqual two_entries users_query = Some ?e1"
    by (simp add: find_item_eq_find two_entries_cache matches_users)
  from bust_removes_first_match [OF d, of areBasicallyEqual users_query] f
  obtain before after where s: "cache two_entries = before @ ?e1 # after"
    and b: "cache (bust areBasicallyEqual two_entries (Some users_query)) = before @ after"
    by blast
  have "before = []"
  proof (cases before)
    case Nil
    then show ?thesis .
  next
    case (Cons x xs)
    with s have "xs @ ?e1 # after = [?e2]" by (simp add: two_entries_cache)
    then have False by (cases xs) simp_all
    then show ?thesis ..
  qed
  with s have "after = [?e2]" by (simp add: two_entries_cache)
  with b \<open>before = []\<close>
  have c: "cache (bust areBasicallyEqual two_entries (Some users_query)) = [?e2]" by simp
  have "find_item areBasicallyEqual (bust areBasicallyEqual two_entries (Some users_query)) users_query
          = Some ?e2"
    unfolding find_item_eq_find c by (simp add: matches_users)
  with d f c show ?thesis by simp
qed

text \<open>
  A preloaded array that holds one object at two positions: \<open>find\<close> returns that object,
  and the filter of \<open>bust\<close> drops both positions, so the array of two entries is empty
  afterwards instead of keeping one.
\<close>

theorem bust_shared_item_counterexample:
  "cache preloaded_twice = [shared_item, shared_item]
   \<and> find_item areBasicallyEqual preloaded_twice users_query = Some shared_item
   \<and> cache (bust areBasicallyEqual preloaded_twice (Some users_query)) = []
   \<and> cache (bust areBasicallyEqual preloaded_twice (Some users_query))
       \<noteq> remove1 shared_item (cache preloaded_twice)"
proof -
  have c: "cache preloaded_twice = [shared_item, shared_item]"
    by (simp add: preloaded_twice_def new_service_cache)
  have m: "matches areBasicallyEqual users_query shared_item"
    by (simp add: shared_item_def matches_users)
  have f: "find_item areBasicallyEqual preloaded_twice users_query = Some shared_item"
    by (simp add: find_item_eq_find c m)
  have "cache (bust areBasicallyEqual preloaded_twice (Some users_query)) = []"
    by (simp add: bust_cache f c)
  with c f show ?thesis by simp
qed

text \<open>
  C4. \<open>bust\<close> without a descriptor empties the array, whatever it held; afterwards
  \<open>find\<close> returns not-found and \<open>has\<close> returns false for every descriptor.
\<close>

theorem bust_all_clears:
  "cache (bust cmp this None) = []
   \<and> find_item cmp (bust cmp this None) d = None
   \<and> has cmp (bust cmp this None) d = False"
proof -
  have c: "cache (bust cmp this None) = []" by (rule bust_all_cache)
  then have f: "find_item cmp (bust cmp this None) d = None" by (rule find_item_empty)
  then have "has cmp (bust cmp this None) d = False" unfolding has_eq_find by simp
  with c f show ?thesis by blast
qed

section \<open>Parameters\<close>

text \<open>
  C5. With the comparer of the specification, for every parameter name and every
  non-empty string value: params that are undefined or have no entry are fuzzy-equal to
  params whose only entry has the empty string as its value, in both directions; params
  with a non-empty value for the name are not fuzzy-equal to params with the empty
  string for it, nor to params without the name (empty or undefined); undefined params
  are fuzzy-equal to undefined params and to empty ones; and undefined params are not
  fuzzy-equal to params that give the name a non-empty value.
\<close>

theorem absence_equivalence:
  "paramsAreBasicallyEqual areBasicallyEqual Undefined (HttpParams [(name, [''''])])
   \<and> paramsAreBasicallyEqual areBasicallyEqual (HttpParams [(name, [''''])]) Undefined
   \<and> paramsAreBasicallyEqual areBasicallyEqual Undefined (RawParams [(name, LString '''')])
   \<and> paramsAreBasicallyEqual areBasicallyEqual (RawParams [(name, LString '''')]) Undefined
   \<and> paramsAreBasicallyEqual areBasicallyEqual (HttpParams []) (HttpParams [(name, [''''])])
   \<and> paramsAreBasicallyEqual areBasicallyEqual (HttpParams [(name, [''''])]) (HttpParams [])
   \<and> \<not> paramsAreBasicallyEqual areBasicallyEqual
         (HttpParams [(name, [c # v])]) (HttpParams [(name, [''''])])
   \<and> \<not> paramsAreBasicallyEqual areBasicallyEqual
         (RawParams [(name, LString (c # v))]) (RawParams [(name, LString '''')])
   \<and> \<not> paramsAreBasicallyEqual areBasicallyEqual (HttpParams [(name, [c # v])]) (HttpParams [])
   \<and> \<not> paramsAreBasicallyEqual areBasicallyEqual (HttpParams [(name, [c # v])]) (RawParams [])
   \<and> \<not> paramsAreBasicallyEqual areBasicallyEqual (HttpParams [(name, [c # v])]) Undefined
   \<and> paramsAreBasicallyEqual areBasicallyEqual Undefined Undefined
   \<and> paramsAreBasicallyEqual areBasicallyEqual Undefined (HttpParams [])
   \<and> paramsAreBasicallyEqual areBasicallyEqual Undefined (RawParams [])
   \<and> \<not> paramsAreBasicallyEqual areBasicallyEqual Undefined (HttpParams [(name, [c # v])])
   \<and> \<not> paramsAreBasicallyEqual areBasicallyEqual Undefined (RawParams [(name, LString (c # v))])"
  by (simp add: cmp_eval)

text \<open>
  C8. \<open>hasParams\<close> is true exactly when the params are undefined or have at least one key;
  it is false exactly for a defined container with no key.
\<close>

theorem hasParams_polarity:
  "hasParams ps = (ps = None \<or> (\<exists>p. ps = Some p \<and> keys p \<noteq> []))
   \<and> (\<not> hasParams ps) = (\<exists>p. ps = Some p \<and> keys p = [])"
  by (cases ps) (simp_all add: hasParams_def)

text \<open>
  C9. For a multi-valued container the normalizer yields the sequence of pairs of each
  key with what \<open>get\<close> returns for it: as many pairs as keys, with the keys as their
  names in the same order, and for a key with several values the first of them. For
  undefined params it yields \<open>undefined\<close>, which is not the empty sequence that an empty
  container yields. A raw mapping is passed on as the object it is.
\<close>

theorem normalizer_contract:
  "convertHttpParamsToLooseValue (HttpParams p) = LPairs (map (\<lambda>key. (key, get p key)) (keys p))
   \<and> length (map (\<lambda>key. (key, get p key)) (keys p)) = length (keys p)
   \<and> map fst (map (\<lambda>key. (key, get p key)) (keys p)) = keys p
   \<and> get ((name, v # vs) # p) name = LString v
   \<and> convertHttpParamsToLooseValue Undefined = LUndefined
   \<and> convertHttpParamsToLooseValue Undefined \<noteq> convertHttpParamsToLooseValue (HttpParams [])
   \<and> convertHttpParamsToLooseValue (RawParams m) = LObject m"
  by (simp add: get_def keys_def comp_def)

section \<open>The verbose setting\<close>

lemma step_cache_only:
  assumes "cache s1 = cache s2"
  shows "fst (step cmp s1 op) = fst (step cmp s2 op)
         \<and> cache (snd (step cmp s1 op)) = cache (snd (step cmp s2 op))"
proof (cases op)
  case (Find d)
  then show ?thesis using assms by (simp add: find_item_eq_find)
next
  case (Has d)
  then show ?thesis using assms by (simp add: has_eq_find find_item_eq_find)
next
  case (Insert req resp)
  then show ?thesis using assms by (simp add: insert_item_cache)
next
  case (Bust a)
  show ?thesis
  proof (cases a)
    case None
    with Bust show ?thesis by (simp add: bust_all_cache del: bust.simps)
  next
    case (Some d)
    have "cache (bust cmp s1 (Some d)) = cache (bust cmp s2 (Some d))"
      unfolding bust_cache find_item_eq_find assms ..
    with Bust Some show ?thesis using assms
      by (simp add: find_item_eq_find del: bust.simps)
  qed
qed

lemma run_cache_only:
  "cache s1 = cache s2 \<Longrightarrow>
     fst (run cmp s1 ops) = fst (run cmp s2 ops)
     \<and> cache (snd (run cmp s1 ops)) = cache (snd (run cmp s2 ops))"
proof (induction ops arbitrary: s1 s2)
  case Nil
  then show ?case by simp
next
  case (Cons op ops)
  from step_cache_only [OF Cons.prems, of cmp op]
  have o: "fst (step cmp s1 op) = fst (step cmp s2 op)"
    and c: "cache (snd (step cmp s1 op)) = cache (snd (step cmp s2 op))" by simp_all
  from Cons.IH [OF c] o show ?case
    by (simp add: split_beta Let_def)
qed

text \<open>
  C10. From the same service, once with \<open>verbose\<close> set and once with it cleared, every
  sequence of \<open>find\<close>, \<open>has\<close>, \<open>insert\<close> and \<open>bust\<close> calls returns the same results, call
  by call, and ends with the same array of entries.
\<close>

theorem verbose_does_not_influence:
  "fst (run cmp (this \<lparr> settings := (settings this) \<lparr> verbose := True \<rparr> \<rparr>) ops)
     = fst (run cmp (this \<lparr> settings := (settings this) \<lparr> verbose := False \<rparr> \<rparr>) ops)
   \<and> cache (snd (run cmp (this \<lparr> settings := (settings this) \<lparr> verbose := True \<rparr> \<rparr>) ops))
     = cache (snd (run cmp (this \<lparr> settings := (settings this) \<lparr> verbose := False \<rparr> \<rparr>) ops))"
  by (rule run_cache_only) simp

end
